theory Spec2Isabelle
  imports Complex_Main "HOL-Library.Multiset"
begin

section \<open>Data model of affluences_reservation.py\<close>

text \<open>
  Times. \<open>datetime.datetime.strptime(x, "%H:%M")\<close> yields a datetime on 1900-01-01 with
  whole minutes; a \<open>datetime\<close> is modelled as the number of minutes since 1900-01-01 00:00
  and a \<open>datetime.time\<close> as the number of minutes since midnight (so \<open>0 \<le> t < 1440\<close> for
  every value the program can hold). A \<open>datetime.date\<close> is its day number.
  Hours are rationals: every length the program computes is a multiple of one minute
  divided by 60, and the thresholds it compares with are multiples of 0.5.
\<close>

type_synonym datetime = int
type_synonym time_of_day = int
type_synonym date = int
type_synonym hours = rat

datatype ReservationType = FULL_DAY | ONLY_MORNING | ONLY_AFTERNOON

text \<open>One entry of \<open>resource["hours"]\<close>, its \<open>"hour"\<close> field already parsed.\<close>

record TimeState =
  hour :: datetime
  state :: string

text \<open>One element of the list returned by \<open>get_available_slots\<close>.\<close>

record Resource =
  resource_id :: int
  resource_name :: string
  hours :: "TimeState list"

text \<open>
  The dict built for each run by \<open>compress_availabilities\<close>:
  \<open>{"slot": [first.time(), last.time()], "length": ..., "resource_name": ...}\<close>.
\<close>

record Interval =
  iv_slot :: "time_of_day \<times> time_of_day"
  iv_length :: hours
  iv_resource_name :: string

text \<open>A requested slot \<open>{"slot": [start_time, duration], "date": day}\<close>.\<close>

record DesiredSlot =
  ds_slot :: "time_of_day \<times> hours"
  ds_date :: date

text \<open>The dict appended to \<open>reservations\<close> by \<open>construct_reservations\<close>.\<close>

record Reservation =
  r_resource_id :: int
  r_resource_type :: string
  r_resource_name :: string
  r_start_time :: time_of_day
  r_duration :: hours
  r_date :: date

text \<open>One element of the list returned by \<open>get_resources\<close>.\<close>

record ResourceType =
  rt_resource_name :: string
  rt_resource_id :: int

text \<open>
  A Python dict is an association list in insertion order with distinct keys;
  \<open>d[k] = v\<close> replaces the value of an existing key in place and appends a new key.
\<close>

type_synonym ('k, 'v) dict = "('k \<times> 'v) list"

fun dict_set :: "('k, 'v) dict \<Rightarrow> 'k \<Rightarrow> 'v \<Rightarrow> ('k, 'v) dict" where
  "dict_set [] k v = [(k, v)]"
| "dict_set ((k', v') # d) k v =
     (if k' = k then (k', v) # d else (k', v') # dict_set d k v)"

section \<open>compress_availabilities\<close>

text \<open>The \<open>filter\<close> on \<open>state == "available"\<close> followed by the two \<open>map\<close>s.\<close>

definition available_times :: "TimeState list \<Rightarrow> datetime list" where
  "available_times hs = map hour (filter (\<lambda>x. state x = ''available'') hs)"

text \<open>
  The body of the loop \<open>for slot in available_slots\<close>: \<open>consecutive_slots[-1][-1]\<close> is
  \<open>last (last cs)\<close>, read only when \<open>cs\<close> is not empty.
\<close>

definition consecutive_step :: "datetime list list \<Rightarrow> datetime \<Rightarrow> datetime list list" where
  "consecutive_step cs slot =
     (if length cs = 0 then cs @ [[slot]]
      else if slot = last (last cs) + 30 then butlast cs @ [last cs @ [slot]]
      else cs @ [[slot]])"

definition consecutive_slots :: "datetime list \<Rightarrow> datetime list list" where
  "consecutive_slots ts = foldl consecutive_step [] ts"

text \<open>
  The lambda mapped over the runs; \<open>(x[-1] - x[0]).total_seconds() / 60 / 60\<close>.
\<close>

definition total_seconds :: "int \<Rightarrow> rat" where
  "total_seconds minutes = of_int (minutes * 60)"

definition to_interval :: "string \<Rightarrow> datetime list \<Rightarrow> Interval" where
  "to_interval name x =
     \<lparr>iv_slot = (hd x, last x),
      iv_length = total_seconds (last x - hd x) / 60 / 60,
      iv_resource_name = name\<rparr>"

definition compress_resource :: "string \<Rightarrow> TimeState list \<Rightarrow> Interval list" where
  "compress_resource name hs =
     map (to_interval name) (consecutive_slots (available_times hs))"

definition compress_availabilities :: "Resource list \<Rightarrow> (int, Interval list) dict" where
  "compress_availabilities available_slots =
     foldl (\<lambda>slots resource.
              dict_set slots (resource_id resource)
                (compress_resource (resource_name resource) (hours resource)))
       [] available_slots"

section \<open>find_ideal_slot\<close>

text \<open>\<open>datetime.datetime.combine(today, t)\<close>, with \<open>today\<close> the day number.\<close>

definition combine :: "date \<Rightarrow> time_of_day \<Rightarrow> datetime" where
  "combine day t = day * 1440 + t"

text \<open>
  The inner loop \<open>for slot in slots[resource]\<close>; each \<open>continue\<close> goes on with the rest
  of the list. \<open>start_time\<close> is the combined datetime computed before the loops.
\<close>

fun find_in_resource ::
  "date \<Rightarrow> 'k \<Rightarrow> Interval list \<Rightarrow> hours \<Rightarrow> datetime \<Rightarrow> ('k \<times> Interval) option" where
  "find_in_resource today resource [] len start_time = None"
| "find_in_resource today resource (slot # rest) len start_time =
     (let slot_start_time = combine today (fst (iv_slot slot)) in
      if len \<ge> iv_length slot - 1/2 then
        find_in_resource today resource rest len start_time
      else if \<bar>slot_start_time - start_time\<bar> > 30 then
        find_in_resource today resource rest len start_time
      else Some (resource, slot))"

fun find_in_resources ::
  "date \<Rightarrow> ('k, Interval list) dict \<Rightarrow> hours \<Rightarrow> datetime \<Rightarrow> ('k \<times> Interval) option" where
  "find_in_resources today [] len start_time = None"
| "find_in_resources today ((resource, ivs) # rest) len start_time =
     (case find_in_resource today resource ivs len start_time of
        Some found \<Rightarrow> Some found
      | None \<Rightarrow> find_in_resources today rest len start_time)"

definition find_ideal_slot ::
  "date \<Rightarrow> ('k, Interval list) dict \<Rightarrow> hours \<Rightarrow> time_of_day \<Rightarrow> ('k \<times> Interval) option" where
  "find_ideal_slot today slots len start_time =
     find_in_resources today slots len (combine today start_time)"

text \<open>
  The spec's reading of the matcher: both acceptance constraints, and the first pair
  satisfying them among all (resource, interval) pairs in iteration order.
\<close>

definition qualifies :: "hours \<Rightarrow> time_of_day \<Rightarrow> Interval \<Rightarrow> bool" where
  "qualifies d s iv \<longleftrightarrow> iv_length iv - 1/2 > d \<and> \<bar>fst (iv_slot iv) - s\<bar> \<le> 30"

definition pairs_in_order :: "('k, Interval list) dict \<Rightarrow> ('k \<times> Interval) list" where
  "pairs_in_order slots = concat (map (\<lambda>(resource, ivs). map (Pair resource) ivs) slots)"

definition first_fit ::
  "('k, Interval list) dict \<Rightarrow> hours \<Rightarrow> time_of_day \<Rightarrow> ('k \<times> Interval) option" where
  "first_fit slots d s = find (\<lambda>(resource, iv). qualifies d s iv) (pairs_in_order slots)"

section \<open>construct_reservations\<close>

text \<open>
  The state the two nested loops work on: the list \<open>reservations\<close>, the caller's list
  \<open>slots\<close> (mutated in place by \<open>slots.remove\<close>), and a record of the calls of
  \<open>get_available_slots\<close> in the order they are made, each with the resource type asked
  and the requested slot whose date was asked.
\<close>

record PlannerState =
  st_reservations :: "Reservation list"
  st_slots :: "DesiredSlot list"
  st_queries :: "(int \<times> DesiredSlot) list"

text \<open>
  The first loops of \<open>construct_reservations\<close>: for each preferred name, in order, the
  (id, name) of every resource of the site with that name.
\<close>

definition resolve_resource_ids :: "ResourceType list \<Rightarrow> string list \<Rightarrow> (int \<times> string) list" where
  "resolve_resource_ids resourses resourse_preference =
     concat (map (\<lambda>resource.
                    map (\<lambda>res. (rt_resource_id res, rt_resource_name res))
                      (filter (\<lambda>res. rt_resource_name res = resource) resourses))
               resourse_preference)"

definition make_reservation :: "string \<Rightarrow> int \<times> Interval \<Rightarrow> DesiredSlot \<Rightarrow> Reservation" where
  "make_reservation name ideal slot =
     \<lparr>r_resource_id = fst ideal,
      r_resource_type = name,
      r_resource_name = iv_resource_name (snd ideal),
      r_start_time = fst (ds_slot slot),
      r_duration = snd (ds_slot slot),
      r_date = ds_date slot\<rparr>"

text \<open>
  The body of the loop \<open>for slot in slots\<close>: one call of the availability provider
  \<open>get_available_slots\<close> (an HTTP call in the source, a parameter here), the
  compressor, the matcher, and on a match the new reservation and \<open>slots.remove(slot)\<close>,
  which deletes the first element equal to \<open>slot\<close>.
\<close>

definition loop_body ::
  "(int \<Rightarrow> date \<Rightarrow> Resource list) \<Rightarrow> date \<Rightarrow> int \<Rightarrow> string \<Rightarrow> DesiredSlot \<Rightarrow> PlannerState
     \<Rightarrow> PlannerState" where
  "loop_body get_available_slots today resource name slot st =
     (let avalable_slots = get_available_slots resource (ds_date slot);
          compressed_slots = compress_availabilities avalable_slots;
          ideal = find_ideal_slot today compressed_slots (snd (ds_slot slot)) (fst (ds_slot slot));
          st1 = st\<lparr>st_queries := st_queries st @ [(resource, slot)]\<rparr>
      in case ideal of
           None \<Rightarrow> st1
         | Some found \<Rightarrow>
             st1\<lparr>st_reservations := st_reservations st1 @ [make_reservation name found slot],
                 st_slots := remove1 slot (st_slots st1)\<rparr>)"

text \<open>
  The loop \<open>for slot in slots\<close>. Python's list iterator keeps an index \<open>i\<close> into the
  list it iterates: each round reads \<open>slots[i]\<close> when \<open>i < len(slots)\<close>, advances the
  index and runs the body; the loop ends when \<open>i \<ge> len(slots)\<close>. The body removes from
  that same list, and the index advances all the same.
\<close>

function for_slot_in_slots ::
  "(int \<Rightarrow> date \<Rightarrow> Resource list) \<Rightarrow> date \<Rightarrow> int \<Rightarrow> string \<Rightarrow> nat \<Rightarrow> PlannerState \<Rightarrow> PlannerState" where
  "for_slot_in_slots get_available_slots today resource name i st =
     (if i < length (st_slots st) then
        for_slot_in_slots get_available_slots today resource name (i + 1)
          (loop_body get_available_slots today resource name (st_slots st ! i) st)
      else st)"
  by pat_completeness auto
termination
proof (relation "measure (\<lambda>(g, today, resource, name, i, st). length (st_slots st) - i)")
  show "wf (measure (\<lambda>(g, today, resource, name, i, st). length (st_slots st) - i))"
    by simp
next
  fix get_available_slots :: "int \<Rightarrow> date \<Rightarrow> Resource list"
    and today resource :: int and name :: string and i :: nat and st :: PlannerState
  assume less: "i < length (st_slots st)"
  have "length (st_slots (loop_body get_available_slots today resource name (st_slots st ! i) st))
      \<le> length (st_slots st)"
    by (simp add: loop_body_def Let_def length_remove1 split: option.split)
  then show "((get_available_slots, today, resource, name, i + 1,
               loop_body get_available_slots today resource name (st_slots st ! i) st),
              (get_available_slots, today, resource, name, i, st))
            \<in> measure (\<lambda>(g, today, resource, name, i, st). length (st_slots st) - i)"
    using less by simp
qed

declare for_slot_in_slots.simps [simp del]

text \<open>The loop \<open>for resource, name in resource_ids\<close> with its \<open>break\<close>.\<close>

fun for_resource_in_resource_ids ::
  "(int \<Rightarrow> date \<Rightarrow> Resource list) \<Rightarrow> date \<Rightarrow> (int \<times> string) list \<Rightarrow> PlannerState \<Rightarrow> PlannerState" where
  "for_resource_in_resource_ids get_available_slots today [] st = st"
| "for_resource_in_resource_ids get_available_slots today ((resource, name) # rest) st =
     (let st' = for_slot_in_slots get_available_slots today resource name 0 st in
      if length (st_slots st') = 0 then st'
      else for_resource_in_resource_ids get_available_slots today rest st')"

text \<open>
  \<open>construct_reservations\<close>: the site's resources (the result of \<open>get_resources\<close>) and
  the provider are parameters. The source returns \<open>reservations\<close> and leaves the
  unmatched slots in the caller's list; the final state holds both.
\<close>

definition construct_reservations ::
  "ResourceType list \<Rightarrow> (int \<Rightarrow> date \<Rightarrow> Resource list) \<Rightarrow> date \<Rightarrow> string list \<Rightarrow> DesiredSlot list
     \<Rightarrow> PlannerState" where
  "construct_reservations resourses get_available_slots today resourse_preference slots0 =
     for_resource_in_resource_ids get_available_slots today
       (resolve_resource_ids resourses resourse_preference)
       \<lparr>st_reservations = [], st_slots = slots0, st_queries = []\<rparr>"

text \<open>The warning \<open>"Could not find all slots"\<close> is logged when this holds of the final state.\<close>

definition could_not_find_all :: "PlannerState \<Rightarrow> bool" where
  "could_not_find_all st \<longleftrightarrow> length (st_slots st) > 0"

section \<open>generate_slots\<close>

text \<open>\<open>datetime.time(h, m)\<close> as minutes since midnight.\<close>

definition time :: "int \<Rightarrow> int \<Rightarrow> time_of_day" where
  "time h m = h * 60 + m"

text \<open>The body of the loop over \<open>range(delta.days + 1)\<close>: the slots appended for one day.\<close>

definition append_day ::
  "ReservationType \<Rightarrow> hours \<Rightarrow> date \<Rightarrow> DesiredSlot list \<Rightarrow> DesiredSlot list" where
  "append_day reservation_type slot_duration day slots0 =
     (let slots1 =
            (if reservation_type = FULL_DAY \<or> reservation_type = ONLY_MORNING
             then slots0 @ [\<lparr>ds_slot = (time 9 0, slot_duration), ds_date = day\<rparr>]
             else slots0)
      in if reservation_type = FULL_DAY \<or> reservation_type = ONLY_AFTERNOON
         then slots1 @ [\<lparr>ds_slot = (time 14 0, slot_duration), ds_date = day\<rparr>]
         else slots1)"

text \<open>
  \<open>generate_slots\<close>, with the date of \<open>datetime.datetime.now()\<close> as the parameter
  \<open>now\<close>; \<open>range(n)\<close> is empty for \<open>n \<le> 0\<close>.
\<close>

definition generate_slots ::
  "date \<Rightarrow> date \<Rightarrow> date \<Rightarrow> ReservationType \<Rightarrow> hours \<Rightarrow> DesiredSlot list" where
  "generate_slots now start_date end_date reservation_type slot_duration =
     (let one_week_from_now = now + 7;
          end_date = (if end_date > one_week_from_now then one_week_from_now else end_date);
          delta = end_date - start_date
      in foldl (\<lambda>slots0 i. append_day reservation_type slot_duration (start_date + int i) slots0)
           [] [0 ..< nat (delta + 1)])"

text \<open>
  The spec's reading of the generator: the days from the start date through the clamped
  end date, each with its morning slot (09:00) and its afternoon slot (14:00) as the
  reservation type allows, and the chronological order of two requested slots.
\<close>

definition morning :: "ReservationType \<Rightarrow> hours \<Rightarrow> date \<Rightarrow> DesiredSlot list" where
  "morning reservation_type d day =
     (if reservation_type = FULL_DAY \<or> reservation_type = ONLY_MORNING
      then [\<lparr>ds_slot = (540, d), ds_date = day\<rparr>] else [])"

definition afternoon :: "ReservationType \<Rightarrow> hours \<Rightarrow> date \<Rightarrow> DesiredSlot list" where
  "afternoon reservation_type d day =
     (if reservation_type = FULL_DAY \<or> reservation_type = ONLY_AFTERNOON
      then [\<lparr>ds_slot = (840, d), ds_date = day\<rparr>] else [])"

definition clamped_end :: "date \<Rightarrow> date \<Rightarrow> date" where
  "clamped_end now end_date = min end_date (now + 7)"

definition slots_of_days :: "ReservationType \<Rightarrow> hours \<Rightarrow> date list \<Rightarrow> DesiredSlot list" where
  "slots_of_days reservation_type d days =
     concat (map (\<lambda>day. morning reservation_type d day @ afternoon reservation_type d day) days)"

definition earlier :: "DesiredSlot \<Rightarrow> DesiredSlot \<Rightarrow> bool" where
  "earlier a b \<longleftrightarrow>
     ds_date a < ds_date b \<or> (ds_date a = ds_date b \<and> fst (ds_slot a) < fst (ds_slot b))"

section \<open>Inputs the properties are stated on\<close>

text \<open>The \<open>n + 1\<close> times \<open>t, t + 30, ..., t + 30 n\<close>: a gap-free sequence on the 30-minute grid.\<close>

definition spaced :: "datetime \<Rightarrow> nat \<Rightarrow> datetime list" where
  "spaced t n = map (\<lambda>k. t + 30 * int k) [0 ..< Suc n]"

text \<open>An available entry at a given time, and an entry in another state.\<close>

definition entry :: "datetime \<Rightarrow> TimeState" where
  "entry t = \<lparr>hour = t, state = ''available''\<rparr>"

definition busy :: "datetime \<Rightarrow> TimeState" where
  "busy t = \<lparr>hour = t, state = ''full''\<rparr>"

text \<open>A run: a non-empty list of times, each 30 minutes after the one before.\<close>

definition is_run :: "datetime list \<Rightarrow> bool" where
  "is_run x \<longleftrightarrow> x \<noteq> [] \<and> x = spaced (hd x) (length x - 1)"


text \<open>
  The interval the compressor emits for the run \<open>spaced t n\<close> of a resource named
  \<open>A\<close>.
\<close>

definition interval :: "time_of_day \<Rightarrow> nat \<Rightarrow> Interval" where
  "interval t n =
     \<lparr>iv_slot = (t, t + 30 * int n), iv_length = of_nat n / 2, iv_resource_name = ''A''\<rparr>"

text \<open>
  A requested slot at 09:00 for 4 hours, a seat free from 09:30 to 14:30 (eleven
  available entries), a site with two resource types, and a provider that offers the
  seat for every resource type on days 1 and 2 and nothing on any other day.
\<close>

definition desired :: "date \<Rightarrow> DesiredSlot" where
  "desired day = \<lparr>ds_slot = (time 9 0, 4), ds_date = day\<rparr>"

definition seat :: "Resource" where
  "seat = \<lparr>resource_id = 7, resource_name = ''A'', hours = map entry (spaced (time 9 30) 10)\<rparr>"

definition site :: "ResourceType list" where
  "site = [\<lparr>rt_resource_name = ''SALA LETTURA'', rt_resource_id = 20\<rparr>,
           \<lparr>rt_resource_name = ''BALLATOIO LFA'', rt_resource_id = 10\<rparr>]"

definition free_two_days :: "int \<Rightarrow> date \<Rightarrow> Resource list" where
  "free_two_days resource day = (if day = 1 \<or> day = 2 then [seat] else [])"

text \<open>The requested slot a reservation was made for: its start time, duration and date.\<close>

definition slot_of :: "Reservation \<Rightarrow> DesiredSlot" where
  "slot_of res = \<lparr>ds_slot = (r_start_time res, r_duration res), ds_date = r_date res\<rparr>"

text \<open>
  The three calls in the body of the planner's inner loop, for one resource type and one
  requested slot: the provider's answer for the slot's date, compressed, then matched
  against the slot's duration and start time.
\<close>

definition ideal_for ::
  "(int \<Rightarrow> date \<Rightarrow> Resource list) \<Rightarrow> date \<Rightarrow> int \<Rightarrow> DesiredSlot \<Rightarrow> (int \<times> Interval) option" where
  "ideal_for get_available_slots today resource slot =
     find_ideal_slot today (compress_availabilities (get_available_slots resource (ds_date slot)))
       (snd (ds_slot slot)) (fst (ds_slot slot))"

text \<open>
  A query of the planner's log is matched when the provider's answer to it holds an
  interval the matcher accepts. A planner state is settled when its pending slots are
  distinct, no slot of a matched query is pending any more, and in its log no query
  after a matched one is for the same slot.
\<close>

definition matched :: "(int \<Rightarrow> date \<Rightarrow> Resource list) \<Rightarrow> date \<Rightarrow> int \<times> DesiredSlot \<Rightarrow> bool" where
  "matched gas today q \<longleftrightarrow> ideal_for gas today (fst q) (snd q) \<noteq> None"

definition settled :: "(int \<Rightarrow> date \<Rightarrow> Resource list) \<Rightarrow> date \<Rightarrow> PlannerState \<Rightarrow> bool" where
  "settled gas today st \<longleftrightarrow>
     distinct (st_slots st) \<and>
     (\<forall>q \<in> set (st_queries st). matched gas today q \<longrightarrow> snd q \<notin> set (st_slots st)) \<and>
     (\<forall>j k. j < k \<and> k < length (st_queries st) \<and> matched gas today (st_queries st ! j) \<longrightarrow>
        snd (st_queries st ! k) \<noteq> snd (st_queries st ! j))"

text \<open>
  The entry of the compressor's mapping for one resource of the provider's answer: its
  id with the intervals of its entries.
\<close>

definition compressed_entry :: "Resource \<Rightarrow> int \<times> Interval list" where
  "compressed_entry r = (resource_id r, compress_resource (resource_name r) (hours r))"

section \<open>The slot matcher is first-fit\<close>

lemma combine_diff: "\<bar>combine today a - combine today b\<bar> = \<bar>a - b\<bar>"
  by (simp add: combine_def)

lemma find_in_resource_find:
  "find_in_resource today resource ivs d (combine today s) =
     find (\<lambda>(r, iv). qualifies d s iv) (map (Pair resource) ivs)"
  by (induction ivs) (auto simp: qualifies_def combine_diff Let_def)

lemma find_append:
  "find P (xs @ ys) = (case find P xs of Some x \<Rightarrow> Some x | None \<Rightarrow> find P ys)"
  by (induction xs) auto

lemma find_in_resources_find:
  "find_in_resources today slots d (combine today s) =
     find (\<lambda>(r, iv). qualifies d s iv) (pairs_in_order slots)"
proof (induction slots)
  case Nil
  show ?case by (simp add: pairs_in_order_def)
next
  case (Cons p slots)
  obtain resource ivs where p: "p = (resource, ivs)" by (cases p)
  have "pairs_in_order (p # slots) = map (Pair resource) ivs @ pairs_in_order slots"
    by (simp add: pairs_in_order_def p)
  then show ?case
    using Cons.IH by (simp add: p find_append find_in_resource_find split: option.split)
qed

lemma find_ideal_slot_find:
  "find_ideal_slot today slots d s =
     find (\<lambda>(r, iv). qualifies d s iv) (pairs_in_order slots)"
  by (simp add: find_ideal_slot_def find_in_resources_find)

text \<open>
  C1. For every mapping from resource ids to interval lists (in iteration order), every
  desired duration \<open>d\<close> and desired start \<open>s\<close>, \<open>find_ideal_slot\<close> returns the first pair
  (resource, interval), scanning resources in order and intervals in list order, whose
  interval has \<open>length - 0.5 > d\<close> and a start within 30 minutes of \<open>s\<close>, and none when
  no interval of any resource satisfies both.
\<close>

theorem find_ideal_slot_first_fit:
  "find_ideal_slot today slots d s = first_fit slots d s"
  unfolding first_fit_def by (rule find_ideal_slot_find)

section \<open>Runs of the compressor\<close>

lemma consecutive_slots_Nil: "consecutive_slots [] = []"
  by (simp add: consecutive_slots_def)

lemma consecutive_slots_snoc:
  "consecutive_slots (ts @ [t]) = consecutive_step (consecutive_slots ts) t"
  by (simp add: consecutive_slots_def)

lemma consecutive_step_concat:
  "[] \<notin> set cs \<Longrightarrow> concat (consecutive_step cs t) = concat cs @ [t] \<and> [] \<notin> set (consecutive_step cs t)"
proof (cases cs rule: rev_cases)
  case Nil
  then show ?thesis by (simp add: consecutive_step_def)
next
  case (snoc cs' x)
  assume "[] \<notin> set cs"
  with snoc show ?thesis by (auto simp: consecutive_step_def)
qed

lemma consecutive_slots_concat:
  "concat (consecutive_slots ts) = ts \<and> [] \<notin> set (consecutive_slots ts)"
proof (induction ts rule: rev_induct)
  case Nil
  show ?case by (simp add: consecutive_slots_Nil)
next
  case (snoc t ts)
  then show ?case
    using consecutive_step_concat [of "consecutive_slots ts" t]
    by (simp add: consecutive_slots_snoc)
qed

lemma consecutive_slots_eq_Nil: "consecutive_slots ts = [] \<longleftrightarrow> ts = []"
  using consecutive_slots_concat [of ts] by (cases ts) (auto simp: consecutive_slots_Nil)

lemma last_last_consecutive_slots:
  assumes "ts \<noteq> []"
  shows "last (last (consecutive_slots ts)) = last ts"
proof -
  let ?cs = "consecutive_slots ts"
  have ne: "?cs \<noteq> []" using assms by (simp add: consecutive_slots_eq_Nil)
  then obtain cs' x where cs: "?cs = cs' @ [x]" by (cases ?cs rule: rev_cases) auto
  have "x \<noteq> []" using consecutive_slots_concat [of ts] cs by auto
  moreover have "concat cs' @ x = ts" using consecutive_slots_concat [of ts] cs by simp
  ultimately have "last ts = last x" by (metis last_appendR)
  then show ?thesis by (simp add: cs)
qed

lemma consecutive_slots_step:
  "consecutive_slots (ts @ [t]) =
     (if ts = [] then [[t]]
      else if t = last ts + 30
        then butlast (consecutive_slots ts) @ [last (consecutive_slots ts) @ [t]]
      else consecutive_slots ts @ [[t]])"
  by (simp add: consecutive_slots_snoc consecutive_step_def consecutive_slots_eq_Nil
      last_last_consecutive_slots consecutive_slots_Nil)

lemma spaced_0: "spaced t 0 = [t]"
  by (simp add: spaced_def)

lemma spaced_Suc: "spaced t (Suc n) = spaced t n @ [t + 30 * int (Suc n)]"
  by (simp add: spaced_def)

lemma spaced_not_Nil: "spaced t n \<noteq> []"
  by (simp add: spaced_def)

lemma hd_spaced: "hd (spaced t n) = t"
  by (induction n) (simp_all add: spaced_0 spaced_Suc spaced_not_Nil)

lemma last_spaced: "last (spaced t n) = t + 30 * int n"
  by (cases n) (simp_all add: spaced_0 spaced_Suc)

lemma length_spaced: "length (spaced t n) = Suc n"
  by (simp add: spaced_def)

lemma consecutive_slots_spaced: "consecutive_slots (spaced t n) = [spaced t n]"
proof (induction n)
  case 0
  show ?case using consecutive_slots_step [of "[]" t] by (simp add: spaced_0)
next
  case (Suc n)
  show ?case
    using consecutive_slots_step [of "spaced t n" "t + 30 * int (Suc n)"] Suc
    by (simp add: spaced_Suc spaced_not_Nil last_spaced)
qed

lemma consecutive_slots_gap:
  assumes "u \<noteq> t + 30 * int n + 30"
  shows "consecutive_slots (spaced t n @ spaced u m) = [spaced t n, spaced u m]"
proof (induction m)
  case 0
  show ?case
    using consecutive_slots_step [of "spaced t n" u] assms
    by (simp add: spaced_0 spaced_not_Nil last_spaced consecutive_slots_spaced)
next
  case (Suc m)
  show ?case
    using consecutive_slots_step [of "spaced t n @ spaced u m" "u + 30 * int (Suc m)"] Suc
    by (simp add: spaced_Suc spaced_not_Nil last_spaced)
qed

lemma to_interval_spaced:
  "to_interval name (spaced t n) =
     \<lparr>iv_slot = (t, t + 30 * int n), iv_length = of_nat n / 2, iv_resource_name = name\<rparr>"
  by (simp add: to_interval_def hd_spaced last_spaced total_seconds_def)

section \<open>What the compressor returns\<close>

lemma compress_resource_spaced:
  "available_times hs = spaced t n \<Longrightarrow>
   compress_resource name hs =
     [\<lparr>iv_slot = (t, t + 30 * int n), iv_length = of_nat n / 2, iv_resource_name = name\<rparr>]"
  by (simp add: compress_resource_def consecutive_slots_spaced to_interval_spaced)

lemma compress_resource_gap:
  "available_times hs = spaced t n @ spaced u m \<Longrightarrow> u \<noteq> t + 30 * int n + 30 \<Longrightarrow>
   compress_resource name hs =
     [\<lparr>iv_slot = (t, t + 30 * int n), iv_length = of_nat n / 2, iv_resource_name = name\<rparr>,
      \<lparr>iv_slot = (u, u + 30 * int m), iv_length = of_nat m / 2, iv_resource_name = name\<rparr>]"
  by (simp add: compress_resource_def consecutive_slots_gap to_interval_spaced)

lemma compress_availabilities_single:
  "compress_availabilities [\<lparr>resource_id = rid, resource_name = name, hours = hs\<rparr>] =
     [(rid, compress_resource name hs)]"
  by (simp add: compress_availabilities_def)

lemma dict_set_fresh: "k \<notin> fst ` set d \<Longrightarrow> dict_set d k v = d @ [(k, v)]"
  by (induction d) auto

lemma keys_dict_set:
  "map fst (dict_set d k v) = (if k \<in> fst ` set d then map fst d else map fst d @ [k])"
  by (induction d) force+

lemma map_of_dict_set:
  "distinct (map fst d) \<Longrightarrow> map_of (dict_set d k v) = (map_of d)(k \<mapsto> v)"
  by (induction d) (auto simp: fun_upd_twist)

lemma compress_availabilities_snoc:
  "compress_availabilities (rs @ [r]) =
     dict_set (compress_availabilities rs) (resource_id r)
       (compress_resource (resource_name r) (hours r))"
  by (simp add: compress_availabilities_def)

lemma compress_availabilities_Nil: "compress_availabilities [] = []"
  by (simp add: compress_availabilities_def)

lemma keys_compress_availabilities:
  "map fst (compress_availabilities rs) = rev (remdups (rev (map resource_id rs)))"
proof (induction rs rule: rev_induct)
  case Nil
  show ?case by (simp add: compress_availabilities_Nil)
next
  case (snoc r rs)
  have "fst ` set (compress_availabilities rs) = resource_id ` set rs"
    using arg_cong [OF snoc, of set] by simp
  then show ?case
    using snoc by (simp add: compress_availabilities_snoc keys_dict_set)
qed

lemma distinct_keys_compress_availabilities:
  "distinct (map fst (compress_availabilities rs))"
  by (simp add: keys_compress_availabilities)

lemma map_of_compress_availabilities:
  "map_of (compress_availabilities rs) = map_of (rev (map compressed_entry rs))"
proof (induction rs rule: rev_induct)
  case Nil
  show ?case by (simp add: compress_availabilities_Nil)
next
  case (snoc r rs)
  show ?case
    using snoc distinct_keys_compress_availabilities [of rs]
    by (simp add: compress_availabilities_snoc map_of_dict_set compressed_entry_def)
qed

lemma compress_availabilities_distinct:
  "distinct (map resource_id rs) \<Longrightarrow>
   compress_availabilities rs = map compressed_entry rs"
proof (induction rs rule: rev_induct)
  case Nil
  show ?case by (simp add: compress_availabilities_Nil)
next
  case (snoc r rs)
  then have eq: "compress_availabilities rs = map compressed_entry rs" by simp
  have "resource_id r \<notin> fst ` set (map compressed_entry rs)"
    using snoc.prems by (auto simp: compressed_entry_def)
  then show ?case
    unfolding compress_availabilities_snoc eq
    by (simp add: dict_set_fresh compressed_entry_def)
qed

lemma spaced_2: "spaced t 2 = [t, t + 30, t + 60]"
  by (simp add: spaced_def numeral_2_eq_2)

text \<open>
  C2. For every answer of the provider, the compressor returns one entry per resource
  id, in the order the ids first occur, holding the intervals of the last resource with
  that id; when the ids are distinct that is one entry per resource, in order. For every
  per-resource list of entries, it keeps exactly the entries whose state is available
  and merges their times into runs: a new time extends the current run iff it equals
  the previous time plus 30 minutes, and starts a new run otherwise. So a gap-free
  sequence of \<open>n + 1\<close> available times spaced 30 minutes yields exactly one interval
  from the first to the last time, and two such sequences separated by a gap of more
  than 30 minutes yield exactly two intervals; available entries at 09:00, 09:30,
  10:00, 11:00 yield 09:00-10:00 of length 1.0 h and 11:00-11:00 of length 0.0 h.
\<close>

theorem compress_runs:
  "compress_availabilities [\<lparr>resource_id = rid, resource_name = name, hours = hs\<rparr>] =
     [(rid, compress_resource name hs)]
   \<and> map fst (compress_availabilities rs) = rev (remdups (rev (map resource_id rs)))
   \<and> map_of (compress_availabilities rs) =
       map_of (rev (map (\<lambda>r. (resource_id r, compress_resource (resource_name r) (hours r))) rs))
   \<and> (distinct (map resource_id rs) \<longrightarrow>
        compress_availabilities rs =
          map (\<lambda>r. (resource_id r, compress_resource (resource_name r) (hours r))) rs)
   \<and> compress_resource name hs =
       map (to_interval name)
         (consecutive_slots (map hour (filter (\<lambda>x. state x = ''available'') hs)))
   \<and> consecutive_slots [] = []
   \<and> consecutive_slots (ts @ [t]) =
       (if ts = [] then [[t]]
        else if t = last ts + 30
          then butlast (consecutive_slots ts) @ [last (consecutive_slots ts) @ [t]]
        else consecutive_slots ts @ [[t]])
   \<and> (available_times hs = spaced t0 n \<longrightarrow>
        compress_resource name hs =
          [\<lparr>iv_slot = (t0, t0 + 30 * int n), iv_length = of_nat n / 2,
            iv_resource_name = name\<rparr>])
   \<and> (available_times hs = spaced t0 n @ spaced u m \<and> u > t0 + 30 * int n + 30 \<longrightarrow>
        compress_resource name hs =
          [\<lparr>iv_slot = (t0, t0 + 30 * int n), iv_length = of_nat n / 2,
            iv_resource_name = name\<rparr>,
           \<lparr>iv_slot = (u, u + 30 * int m), iv_length = of_nat m / 2,
            iv_resource_name = name\<rparr>])
   \<and> compress_resource name [entry (time 9 0), entry (time 9 30), entry (time 10 0), entry (time 11 0)] =
       [\<lparr>iv_slot = (time 9 0, time 10 0), iv_length = 1, iv_resource_name = name\<rparr>,
        \<lparr>iv_slot = (time 11 0, time 11 0), iv_length = 0, iv_resource_name = name\<rparr>]"
proof -
  have ex: "available_times [entry (time 9 0), entry (time 9 30), entry (time 10 0), entry (time 11 0)]
      = spaced 540 2 @ spaced 660 0"
    by (simp add: available_times_def entry_def time_def spaced_2 spaced_0)
  have e: "compress_resource name [entry (time 9 0), entry (time 9 30), entry (time 10 0), entry (time 11 0)] =
       [\<lparr>iv_slot = (time 9 0, time 10 0), iv_length = 1, iv_resource_name = name\<rparr>,
        \<lparr>iv_slot = (time 11 0, time 11 0), iv_length = 0, iv_resource_name = name\<rparr>]"
    using compress_resource_gap [OF ex, of name] by (simp add: time_def)
  have f: "compress_resource name hs =
       map (to_interval name)
         (consecutive_slots (map hour (filter (\<lambda>x. state x = ''available'') hs)))"
    by (simp add: compress_resource_def available_times_def)
  have ce: "map (\<lambda>r. (resource_id r, compress_resource (resource_name r) (hours r))) rs =
      map compressed_entry rs"
    by (simp add: compressed_entry_def)
  have k: "map fst (compress_availabilities rs) = rev (remdups (rev (map resource_id rs)))"
    by (rule keys_compress_availabilities)
  have v: "map_of (compress_availabilities rs) =
       map_of (rev (map (\<lambda>r. (resource_id r, compress_resource (resource_name r) (hours r))) rs))"
    unfolding ce by (rule map_of_compress_availabilities)
  have d: "distinct (map resource_id rs) \<longrightarrow>
        compress_availabilities rs =
          map (\<lambda>r. (resource_id r, compress_resource (resource_name r) (hours r))) rs"
    unfolding ce using compress_availabilities_distinct [of rs] by blast
  have r: "consecutive_slots (ts @ [t]) =
       (if ts = [] then [[t]]
        else if t = last ts + 30
          then butlast (consecutive_slots ts) @ [last (consecutive_slots ts) @ [t]]
        else consecutive_slots ts @ [[t]])"
    by (rule consecutive_slots_step)
  have g1: "available_times hs = spaced t0 n \<longrightarrow>
        compress_resource name hs =
          [\<lparr>iv_slot = (t0, t0 + 30 * int n), iv_length = of_nat n / 2,
            iv_resource_name = name\<rparr>]"
    using compress_resource_spaced [of hs t0 n name] by blast
  have g2: "available_times hs = spaced t0 n @ spaced u m \<and> u > t0 + 30 * int n + 30 \<longrightarrow>
        compress_resource name hs =
          [\<lparr>iv_slot = (t0, t0 + 30 * int n), iv_length = of_nat n / 2,
            iv_resource_name = name\<rparr>,
           \<lparr>iv_slot = (u, u + 30 * int m), iv_length = of_nat m / 2,
            iv_resource_name = name\<rparr>]"
    using compress_resource_gap [of hs t0 n u m name] by auto
  show ?thesis
    using compress_availabilities_single [of rid name hs] k v d f consecutive_slots_Nil r g1 g2 e
    by blast
qed

theorem compress_runs_witness:
  "available_times [busy 510, entry 540, entry 570, entry 600, busy 630] = spaced 540 2
   \<and> compress_resource ''A'' [busy 510, entry 540, entry 570, entry 600, busy 630] =
       [\<lparr>iv_slot = (540, 600), iv_length = 1, iv_resource_name = ''A''\<rparr>]
   \<and> available_times [entry 540, entry 570, entry 600, busy 630, entry 660] =
       spaced 540 2 @ spaced 660 0
   \<and> (660::int) > 540 + 30 * int 2 + 30
   \<and> compress_resource ''A'' [entry 540, entry 570, entry 600, busy 630, entry 660] =
       [\<lparr>iv_slot = (540, 600), iv_length = 1, iv_resource_name = ''A''\<rparr>,
        \<lparr>iv_slot = (660, 660), iv_length = 0, iv_resource_name = ''A''\<rparr>]
   \<and> distinct (map resource_id
        [\<lparr>resource_id = 1, resource_name = ''A'',
           hours = [busy 510, entry 540, entry 570, entry 600, busy 630]\<rparr>,
         \<lparr>resource_id = 2, resource_name = ''A'',
           hours = [entry 540, entry 570, entry 600, busy 630, entry 660]\<rparr>])
   \<and> compress_availabilities
        [\<lparr>resource_id = 1, resource_name = ''A'',
           hours = [busy 510, entry 540, entry 570, entry 600, busy 630]\<rparr>,
         \<lparr>resource_id = 2, resource_name = ''A'',
           hours = [entry 540, entry 570, entry 600, busy 630, entry 660]\<rparr>] =
       [(1, [\<lparr>iv_slot = (540, 600), iv_length = 1, iv_resource_name = ''A''\<rparr>]),
        (2, [\<lparr>iv_slot = (540, 600), iv_length = 1, iv_resource_name = ''A''\<rparr>,
             \<lparr>iv_slot = (660, 660), iv_length = 0, iv_resource_name = ''A''\<rparr>])]"
proof -
  let ?hs1 = "[busy 510, entry 540, entry 570, entry 600, busy 630]"
  let ?hs2 = "[entry 540, entry 570, entry 600, busy 630, entry 660]"
  let ?rs = "[\<lparr>resource_id = 1, resource_name = ''A'', hours = ?hs1\<rparr>,
              \<lparr>resource_id = 2, resource_name = ''A'', hours = ?hs2\<rparr>]"
  have h1: "available_times ?hs1 = spaced 540 2"
    by (simp add: available_times_def entry_def busy_def spaced_2)
  have h2: "available_times ?hs2 = spaced 540 2 @ spaced 660 0"
    by (simp add: available_times_def entry_def busy_def spaced_2 spaced_0)
  have h3: "(660::int) > 540 + 30 * int 2 + 30" by simp
  have h4: "distinct (map resource_id ?rs)" by simp
  have c1: "compress_resource ''A'' ?hs1 =
      [\<lparr>iv_slot = (540, 540 + 30 * int 2), iv_length = of_nat 2 / 2, iv_resource_name = ''A''\<rparr>]"
    using h1 compress_runs [where name = "''A''" and hs = ?hs1 and ?t0.0 = 540 and n = 2]
    by blast
  have c2: "compress_resource ''A'' ?hs2 =
      [\<lparr>iv_slot = (540, 540 + 30 * int 2), iv_length = of_nat 2 / 2, iv_resource_name = ''A''\<rparr>,
       \<lparr>iv_slot = (660, 660 + 30 * int 0), iv_length = of_nat 0 / 2, iv_resource_name = ''A''\<rparr>]"
    using h2 h3
      compress_runs [where name = "''A''" and hs = ?hs2 and ?t0.0 = 540 and n = 2 and u = 660 and m = 0]
    by blast
  have c3: "compress_availabilities ?rs =
      map (\<lambda>r. (resource_id r, compress_resource (resource_name r) (hours r))) ?rs"
    using h4 compress_runs [where rs = ?rs] by blast
  have c4: "compress_availabilities ?rs =
      [(1, compress_resource ''A'' ?hs1), (2, compress_resource ''A'' ?hs2)]"
    unfolding c3 by simp
  show ?thesis
    unfolding c4 c1 c2 h1 h2 by simp
qed

section \<open>Interval lengths\<close>

lemma spaced_snoc: "x = spaced t n \<Longrightarrow> x @ [last x + 30] = spaced t (Suc n)"
  by (simp add: spaced_Suc last_spaced)

lemma run_extend:
  assumes "x \<noteq> []" "x = spaced (hd x) (length x - 1)"
  shows "x @ [last x + 30] = spaced (hd (x @ [last x + 30])) (length (x @ [last x + 30]) - 1)"
proof -
  have "x @ [last x + 30] = spaced (hd x) (Suc (length x - 1))"
    using assms(2) by (rule spaced_snoc)
  moreover have "Suc (length x - 1) = length x" using assms(1) by (cases x) auto
  ultimately show ?thesis using assms(1) by (simp add: hd_spaced length_spaced)
qed

lemma is_run_single: "is_run [t]"
  by (simp add: is_run_def spaced_0)

lemma is_run_extend: "is_run x \<Longrightarrow> is_run (x @ [last x + 30])"
  unfolding is_run_def using run_extend [of x] by blast

lemma consecutive_step_runs:
  assumes "\<forall>x \<in> set cs. is_run x"
  shows "\<forall>x \<in> set (consecutive_step cs t). is_run x"
proof (cases cs rule: rev_cases)
  case Nil
  then show ?thesis by (simp add: consecutive_step_def is_run_single)
next
  case (snoc cs' y)
  have y: "is_run y" using assms snoc by simp
  show ?thesis
  proof (cases "t = last y + 30")
    case True
    have "consecutive_step cs t = cs' @ [y @ [last y + 30]]"
      using snoc True by (simp add: consecutive_step_def)
    then show ?thesis using assms snoc is_run_extend [OF y] by simp
  next
    case False
    have "consecutive_step cs t = cs @ [[t]]"
      using snoc False by (simp add: consecutive_step_def)
    then show ?thesis using assms by (simp add: is_run_single)
  qed
qed

lemma consecutive_slots_runs: "\<forall>x \<in> set (consecutive_slots ts). is_run x"
proof (induction ts rule: rev_induct)
  case Nil
  show ?case by (simp add: consecutive_slots_Nil)
next
  case (snoc t ts)
  then show ?case
    unfolding consecutive_slots_snoc by (rule consecutive_step_runs)
qed

text \<open>
  C6 (amended). Every run of \<open>n\<close> consecutive available entries that the compressor
  forms is non-empty and 30-minute spaced, an interval is emitted for it, and the
  emitted interval's length is the last entry's time minus the first entry's time, in
  hours: \<open>(n - 1) * 0.5\<close> hours, with no 0.5-hour block added for the last entry.
\<close>

theorem interval_length_of_run:
  "x \<in> set (consecutive_slots (available_times hs)) \<Longrightarrow>
     x \<noteq> [] \<and> x = spaced (hd x) (length x - 1) \<and>
     to_interval name x \<in> set (compress_resource name hs) \<and>
     iv_length (to_interval name x) = of_int (last x - hd x) / 60 \<and>
     iv_length (to_interval name x) = (of_nat (length x) - 1) * (1 / 2)"
proof -
  assume x: "x \<in> set (consecutive_slots (available_times hs))"
  then have "is_run x"
    using consecutive_slots_runs [of "available_times hs"] by blast
  then have r: "x \<noteq> []" "x = spaced (hd x) (length x - 1)"
    unfolding is_run_def by blast+
  have l: "iv_length (to_interval name x) = of_int (last x - hd x) / 60"
    by (simp add: to_interval_def total_seconds_def)
  have "last x = hd x + 30 * int (length x - 1)"
    using r(2) last_spaced [of "hd x" "length x - 1"] by simp
  then have "of_int (last x - hd x) / 60 = (of_nat (length x - 1) :: rat) * (1 / 2)"
    by simp
  moreover have "(of_nat (length x - 1) :: rat) = of_nat (length x) - 1"
    using r(1) by (cases x) auto
  ultimately show ?thesis using x r l by (simp add: compress_resource_def)
qed

theorem interval_length_of_run_witness:
  "[540, 570, 600] \<in> set (consecutive_slots (available_times [entry 540, entry 570, entry 600, entry 660]))
   \<and> iv_length (to_interval ''A'' [540, 570, 600]) = 1
   \<and> iv_length (to_interval ''A'' [540, 570, 600]) = (of_nat 3 - 1) * (1 / 2)"
proof -
  have "available_times [entry 540, entry 570, entry 600, entry 660] = spaced 540 2 @ spaced 660 0"
    by (simp add: available_times_def entry_def spaced_2 spaced_0)
  then have "consecutive_slots (available_times [entry 540, entry 570, entry 600, entry 660]) =
      [spaced 540 2, spaced 660 0]"
    by (simp add: consecutive_slots_gap)
  then have h: "[540, 570, 600] \<in> set (consecutive_slots (available_times [entry 540, entry 570, entry 600, entry 660]))"
    by (simp add: spaced_2)
  have "iv_length (to_interval ''A'' [540, 570, 600]) = of_int (last [540, 570, 600] - hd [540, 570, 600]) / 60"
    and "iv_length (to_interval ''A'' [540, 570, 600]) = (of_nat (length [540, 570, 600 :: int]) - 1) * (1 / 2)"
    using interval_length_of_run [OF h, of "''A''"] by blast+
  then show ?thesis using h by simp
qed

text \<open>
  The claim as stated (length = (last - first) + 0.5 h = n * 0.5 h) fails on the run
  09:00, 09:30, 10:00: the emitted length is 1.0 h, neither 1.0 + 0.5 nor 3 * 0.5.
\<close>

theorem length_plus_half_counterexample:
  "map iv_length (compress_resource ''A'' [entry 540, entry 570, entry 600]) = [1]
   \<and> (1::rat) \<noteq> of_int (600 - 540) / 60 + 1 / 2
   \<and> (1::rat) \<noteq> 3 * (1 / 2)"
proof -
  have "available_times [entry 540, entry 570, entry 600] = spaced 540 2"
    by (simp add: available_times_def entry_def spaced_2)
  then show ?thesis by (simp add: compress_resource_spaced)
qed

section \<open>Order of the input entries\<close>







section \<open>The two tolerances of the matcher\<close>

lemma find_ideal_slot_single:
  "find_ideal_slot today [(r, [iv])] d s = (if qualifies d s iv then Some (r, iv) else None)"
  by (simp add: find_ideal_slot_find pairs_in_order_def)

lemma find_ideal_slot_Some_qualifies:
  "find_ideal_slot today slots d s = Some (r, iv) \<Longrightarrow> qualifies d s iv"
  unfolding find_ideal_slot_find by (auto dest: find_Some_iff [THEN iffD1])

lemma pairs_in_order_append:
  "pairs_in_order (xs @ ys) = pairs_in_order xs @ pairs_in_order ys"
  by (simp add: pairs_in_order_def)

lemma find_ideal_slot_after:
  assumes "find_ideal_slot today (pre @ [(r, ivs1)]) d s = None" "qualifies d s iv"
  shows "find_ideal_slot today (pre @ (r, ivs1 @ iv # ivs2) # post) d s = Some (r, iv)"
proof -
  have "pairs_in_order (pre @ (r, ivs1 @ iv # ivs2) # post) =
      pairs_in_order (pre @ [(r, ivs1)]) @ (r, iv) # map (Pair r) ivs2 @ pairs_in_order post"
    by (simp add: pairs_in_order_def)
  then show ?thesis
    using assms by (simp add: find_ideal_slot_find find_append)
qed

text \<open>
  C5 (amended). The matcher's length tolerance accepts an interval exactly when
  \<open>interval.length - 0.5 > desired_duration\<close> is true: every interval it returns
  satisfies it, and an interval alone in the mapping whose start is within 30 minutes of
  the desired start is returned iff it satisfies it. In particular a desired duration of
  4 hours against an interval of length exactly 4.5 hours yields no match.
\<close>

theorem length_tolerance:
  "(find_ideal_slot today slots d s = Some (r, iv) \<longrightarrow> iv_length iv - 1 / 2 > d)
   \<and> (\<bar>fst (iv_slot iv) - s\<bar> \<le> 30 \<longrightarrow>
        (find_ideal_slot today [(r, [iv])] d s = Some (r, iv)) = (iv_length iv - 1 / 2 > d))
   \<and> (iv_length iv = 9 / 2 \<longrightarrow> find_ideal_slot today [(r, [iv])] 4 s = None)"
  using find_ideal_slot_Some_qualifies [of today slots d s r iv]
  by (auto simp: find_ideal_slot_single qualifies_def)

theorem length_tolerance_witness:
  "find_ideal_slot 0 [(1::int, [interval 540 10])] 4 540 = Some (1, interval 540 10)
   \<and> iv_length (interval 540 10) - 1 / 2 > 4
   \<and> \<bar>fst (iv_slot (interval 540 10)) - 540\<bar> \<le> 30
   \<and> iv_length (interval 540 9) = 9 / 2
   \<and> find_ideal_slot 0 [(1::int, [interval 540 9])] 4 540 = None"
proof -
  have h1: "\<bar>fst (iv_slot (interval 540 10)) - 540\<bar> \<le> 30" by (simp add: interval_def)
  have h2: "iv_length (interval 540 10) - 1 / 2 > 4" by (simp add: interval_def)
  have h3: "iv_length (interval 540 9) = 9 / 2" by (simp add: interval_def)
  have c1: "find_ideal_slot 0 [(1::int, [interval 540 10])] 4 540 = Some (1, interval 540 10)"
    using h1 h2 length_tolerance [of 0 "[(1::int, [interval 540 10])]" 4 540 1 "interval 540 10"]
    by blast
  have c2: "find_ideal_slot 0 [(1::int, [interval 540 9])] 4 540 = None"
    using h3 length_tolerance [of 0 "[(1::int, [interval 540 9])]" 4 540 1 "interval 540 9"]
    by blast
  show ?thesis using h1 h2 h3 c1 c2 by blast
qed

text \<open>
  The claim as stated fails on ten available entries 09:00, ..., 13:30: the compressor
  emits one interval of length 4.5 h starting at the desired start 09:00, for which
  \<open>length - 0.5 > 4\<close> is false, and the matcher returns none for a desired duration
  of 4 hours.
\<close>

theorem length_tolerance_counterexample:
  "compress_availabilities
     [\<lparr>resource_id = 1, resource_name = ''A'', hours = map entry (spaced (time 9 0) 9)\<rparr>] =
     [(1, [\<lparr>iv_slot = (time 9 0, time 13 30), iv_length = 9 / 2, iv_resource_name = ''A''\<rparr>])]
   \<and> \<not> (iv_length \<lparr>iv_slot = (time 9 0, time 13 30), iv_length = 9 / 2, iv_resource_name = ''A''\<rparr>
          - 1 / 2 > 4)
   \<and> find_ideal_slot 0
       [(1::int, [\<lparr>iv_slot = (time 9 0, time 13 30), iv_length = 9 / 2, iv_resource_name = ''A''\<rparr>])]
       4 (time 9 0) = None"
proof -
  have "available_times (map entry (spaced (time 9 0) 9)) = spaced (time 9 0) 9"
    by (simp add: available_times_def entry_def filter_map comp_def)
  then have "compress_resource ''A'' (map entry (spaced (time 9 0) 9)) =
      [\<lparr>iv_slot = (time 9 0, time 13 30), iv_length = 9 / 2, iv_resource_name = ''A''\<rparr>]"
    by (simp add: compress_resource_spaced time_def)
  then show ?thesis
    by (simp add: compress_availabilities_single find_ideal_slot_single qualifies_def)
qed

text \<open>
  C10. The start-time tolerance is inclusive at its boundary: an interval whose start
  differs from the desired start by exactly 30 minutes and that passes the length check
  is returned (when nothing before it in iteration order is), while an interval whose
  start differs by strictly more than 30 minutes is never returned.
\<close>

theorem start_tolerance_inclusive:
  "(\<bar>fst (iv_slot iv) - s\<bar> = 30 \<and> iv_length iv - 1 / 2 > d \<and>
      find_ideal_slot today (pre @ [(r, ivs1)]) d s = None \<longrightarrow>
      find_ideal_slot today (pre @ (r, ivs1 @ iv # ivs2) # post) d s = Some (r, iv))
   \<and> (\<bar>fst (iv_slot iv) - s\<bar> > 30 \<longrightarrow> find_ideal_slot today slots d s \<noteq> Some (r, iv))"
  using find_ideal_slot_Some_qualifies [of today slots d s r iv]
    find_ideal_slot_after [of today pre r ivs1 d s iv ivs2 post]
  by (auto simp: qualifies_def)

theorem start_tolerance_inclusive_witness:
  "\<bar>fst (iv_slot (interval 570 10)) - 540\<bar> = 30
   \<and> iv_length (interval 570 10) - 1 / 2 > 4
   \<and> find_ideal_slot 0 ([(1::int, [interval 480 0])] @ [(2, [interval 540 2])]) 4 540 = None
   \<and> find_ideal_slot 0 ([(1::int, [interval 480 0])] @ (2, [interval 540 2] @ interval 570 10 # []) # []) 4 540
       = Some (2, interval 570 10)
   \<and> \<bar>fst (iv_slot (interval 571 10)) - 540\<bar> > 30
   \<and> find_ideal_slot 0 [(1::int, [interval 571 10])] 4 540 \<noteq> Some (1, interval 571 10)"
proof -
  have h1: "\<bar>fst (iv_slot (interval 570 10)) - 540\<bar> = 30" by (simp add: interval_def)
  have h2: "iv_length (interval 570 10) - 1 / 2 > 4" by (simp add: interval_def)
  have h3: "find_ideal_slot 0 ([(1::int, [interval 480 0])] @ [(2, [interval 540 2])]) 4 540 = None"
    by (simp add: find_ideal_slot_def interval_def combine_def)
  have h4: "\<bar>fst (iv_slot (interval 571 10)) - 540\<bar> > 30" by (simp add: interval_def)
  have c1: "find_ideal_slot 0 ([(1::int, [interval 480 0])] @ (2, [interval 540 2] @ interval 570 10 # []) # []) 4 540
       = Some (2, interval 570 10)"
    using h1 h2 h3
      start_tolerance_inclusive [where iv = "interval 570 10" and s = 540 and d = 4 and today = 0
        and pre = "[(1::int, [interval 480 0])]" and r = 2 and ?ivs1.0 = "[interval 540 2]"
        and ?ivs2.0 = "[]" and post = "[]" and slots = "[]"]
    by blast
  have c2: "find_ideal_slot 0 [(1::int, [interval 571 10])] 4 540 \<noteq> Some (1, interval 571 10)"
    using h4
      start_tolerance_inclusive [where iv = "interval 571 10" and s = 540 and d = 4 and today = 0
        and pre = "[]" and r = 1 and ?ivs1.0 = "[]" and ?ivs2.0 = "[]" and post = "[]"
        and slots = "[(1::int, [interval 571 10])]"]
    by blast
  show ?thesis using h1 h2 h3 h4 c1 c2 by blast
qed


section \<open>The slot generator\<close>

lemma append_day_eq:
  "append_day rt d day acc = acc @ morning rt d day @ afternoon rt d day"
  by (simp add: append_day_def morning_def afternoon_def time_def Let_def)

lemma foldl_append_day:
  "foldl (\<lambda>slots0 i. append_day rt d (s + int i) slots0) acc ns =
     acc @ slots_of_days rt d (map (\<lambda>i. s + int i) ns)"
  by (induction ns arbitrary: acc) (simp_all add: slots_of_days_def append_day_eq)

lemma range_days: "map (\<lambda>i. s + int i) [0 ..< n] = [s .. s + int n - 1]"
proof (induction n)
  case 0
  show ?case by simp
next
  case (Suc n)
  have "[s .. s + int (Suc n) - 1] = [s .. s + int n - 1] @ [s + int n]"
    using upto_rec2 [of s "s + int n"] by simp
  then show ?case using Suc by simp
qed

lemma range_delta: "map (\<lambda>i. s + int i) [0 ..< nat (e - s + 1)] = [s .. e]"
proof (cases "s \<le> e")
  case True
  then have "s + int (nat (e - s + 1)) - 1 = e" by simp
  then show ?thesis using range_days [of s "nat (e - s + 1)"] by simp
next
  case False
  then show ?thesis by simp
qed

lemma generate_slots_eq:
  "generate_slots now start_date end_date rt d =
     slots_of_days rt d [start_date .. clamped_end now end_date]"
proof -
  have "(if end_date > now + 7 then now + 7 else end_date) = clamped_end now end_date"
    by (simp add: clamped_end_def min_def)
  then show ?thesis
    by (simp add: generate_slots_def Let_def foldl_append_day range_delta)
qed

lemma slots_of_days_date:
  "x \<in> set (slots_of_days rt d days) \<Longrightarrow> ds_date x \<in> set days"
  by (auto simp: slots_of_days_def morning_def afternoon_def split: if_splits)

lemma slots_of_days_Cons:
  "slots_of_days rt d (day # days) = morning rt d day @ afternoon rt d day @ slots_of_days rt d days"
  by (simp add: slots_of_days_def)

lemma sorted_one_day: "sorted_wrt earlier (morning rt d day @ afternoon rt d day)"
  by (simp add: morning_def afternoon_def earlier_def)

lemma one_day_date:
  "x \<in> set (morning rt d day @ afternoon rt d day) \<Longrightarrow> ds_date x = day"
  by (auto simp: morning_def afternoon_def split: if_splits)

lemma sorted_slots_of_days:
  "sorted_wrt (<) days \<Longrightarrow> sorted_wrt earlier (slots_of_days rt d days)"
proof (induction days)
  case Nil
  show ?case by (simp add: slots_of_days_def)
next
  case (Cons day days)
  define today_slots where "today_slots = morning rt d day @ afternoon rt d day"
  have later: "earlier x y"
    if "x \<in> set today_slots" "y \<in> set (slots_of_days rt d days)" for x y
  proof -
    have "ds_date x = day" using that(1) unfolding today_slots_def by (rule one_day_date)
    moreover have "day < ds_date y" using Cons.prems slots_of_days_date [OF that(2)] by auto
    ultimately show ?thesis by (simp add: earlier_def)
  qed
  have one: "sorted_wrt earlier today_slots"
    unfolding today_slots_def by (rule sorted_one_day)
  have rest: "sorted_wrt earlier (slots_of_days rt d days)"
    using Cons by simp
  have "slots_of_days rt d (day # days) = today_slots @ slots_of_days rt d days"
    by (simp add: slots_of_days_Cons today_slots_def)
  moreover have "sorted_wrt earlier (today_slots @ slots_of_days rt d days)"
    using one rest later by (simp add: sorted_wrt_append)
  ultimately show ?case by simp
qed

text \<open>
  C8. For every start date, end date, reservation type and duration, the slot generator
  clamps the end date to at most 7 days after now and emits, for each day from the start
  date through the clamped end date inclusive, a 09:00 slot when the type is FULL_DAY or
  ONLY_MORNING and a 14:00 slot when it is FULL_DAY or ONLY_AFTERNOON, each with the
  given duration, in chronological order, morning before afternoon within a day.
\<close>

theorem generate_slots_days:
  "generate_slots now start_date end_date rt d =
     slots_of_days rt d [start_date .. clamped_end now end_date]
   \<and> clamped_end now end_date = min end_date (now + 7)
   \<and> sorted_wrt earlier (generate_slots now start_date end_date rt d)"
  by (simp add: generate_slots_eq sorted_slots_of_days sorted_wrt_upto clamped_end_def)


section \<open>The allocation planner\<close>

lemma for_slot_in_slots_invariant:
  assumes init: "Inv st"
    and step: "\<And>slot st. Inv st \<Longrightarrow> slot \<in> set (st_slots st) \<Longrightarrow>
                   Inv (loop_body gas today resource name slot st)"
  shows "Inv (for_slot_in_slots gas today resource name i st)"
  using assms
proof (induction gas today resource name i st rule: for_slot_in_slots.induct)
  case (1 gas today resource name i st)
  show ?case
  proof (cases "i < length (st_slots st)")
    case True
    then have "st_slots st ! i \<in> set (st_slots st)" by simp
    then have "Inv (loop_body gas today resource name (st_slots st ! i) st)"
      using "1.prems" by blast
    then have "Inv (for_slot_in_slots gas today resource name (i + 1)
        (loop_body gas today resource name (st_slots st ! i) st))"
      using "1.IH" [OF True] "1.prems"(2) by blast
    then show ?thesis
      using True by (subst for_slot_in_slots.simps) simp
  next
    case False
    then show ?thesis
      using "1.prems"(1) by (subst for_slot_in_slots.simps) simp
  qed
qed

lemma for_resource_in_resource_ids_invariant:
  assumes init: "Inv st"
    and step: "\<And>resource name slot st. (resource, name) \<in> set rids \<Longrightarrow> Inv st \<Longrightarrow>
                   slot \<in> set (st_slots st) \<Longrightarrow> Inv (loop_body gas today resource name slot st)"
  shows "Inv (for_resource_in_resource_ids gas today rids st)"
  using assms
proof (induction rids arbitrary: st)
  case Nil
  then show ?case by simp
next
  case (Cons p rids)
  obtain resource name where p: "p = (resource, name)" by (cases p)
  have body: "Inv (loop_body gas today resource name slot st')"
    if "Inv st'" "slot \<in> set (st_slots st')" for slot st'
    using that Cons.prems(2) [of resource name st' slot] by (simp add: p)
  have inner: "Inv (for_slot_in_slots gas today resource name 0 st)"
    using Cons.prems(1) body by (rule for_slot_in_slots_invariant)
  have rest: "Inv (loop_body gas today r n slot st')"
    if "(r, n) \<in> set rids" "Inv st'" "slot \<in> set (st_slots st')" for r n slot st'
    using that Cons.prems(2) [of r n st' slot] by simp
  have "Inv (for_resource_in_resource_ids gas today rids
      (for_slot_in_slots gas today resource name 0 st))"
    using inner rest by (rule Cons.IH)
  then show ?case using inner by (simp add: p Let_def)
qed


lemma loop_body_None:
  "ideal_for gas today resource slot = None \<Longrightarrow>
   loop_body gas today resource name slot st = st\<lparr>st_queries := st_queries st @ [(resource, slot)]\<rparr>"
  by (simp add: loop_body_def ideal_for_def Let_def)

lemma loop_body_Some:
  "ideal_for gas today resource slot = Some found \<Longrightarrow>
   loop_body gas today resource name slot st =
     st\<lparr>st_queries := st_queries st @ [(resource, slot)],
        st_reservations := st_reservations st @ [make_reservation name found slot],
        st_slots := remove1 slot (st_slots st)\<rparr>"
  by (simp add: loop_body_def ideal_for_def Let_def)

lemma slot_of_make_reservation: "slot_of (make_reservation name found slot) = slot"
  by (simp add: slot_of_def make_reservation_def)

lemma loop_body_conserves:
  assumes "mset (map slot_of (st_reservations st)) + mset (st_slots st) = mset slots0"
    and "slot \<in> set (st_slots st)"
  shows "mset (map slot_of (st_reservations (loop_body gas today resource name slot st))) +
         mset (st_slots (loop_body gas today resource name slot st)) = mset slots0"
proof (cases "ideal_for gas today resource slot")
  case None
  then show ?thesis using assms(1) by (simp add: loop_body_None)
next
  case (Some found)
  have m: "add_mset slot (mset (st_slots st) - {#slot#}) = mset (st_slots st)"
    using assms(2) by simp
  have "mset (map slot_of (st_reservations st @ [make_reservation name found slot])) +
        mset (remove1 slot (st_slots st)) =
        mset (map slot_of (st_reservations st)) + add_mset slot (mset (st_slots st) - {#slot#})"
    by (simp add: slot_of_make_reservation)
  also have "\<dots> = mset slots0"
    unfolding m by (rule assms(1))
  finally show ?thesis by (simp add: loop_body_Some [OF Some])
qed

lemma planner_conservation:
  "mset (map slot_of (st_reservations (construct_reservations resourses gas today prefs slots0))) +
   mset (st_slots (construct_reservations resourses gas today prefs slots0)) = mset slots0"
  unfolding construct_reservations_def
proof (rule for_resource_in_resource_ids_invariant
    [where Inv = "\<lambda>st. mset (map slot_of (st_reservations st)) + mset (st_slots st) = mset slots0"])
  show "mset (map slot_of (st_reservations \<lparr>st_reservations = [], st_slots = slots0, st_queries = []\<rparr>)) +
      mset (st_slots \<lparr>st_reservations = [], st_slots = slots0, st_queries = []\<rparr>) = mset slots0"
    by simp
next
  fix resource :: int and name :: string and slot :: DesiredSlot and st :: PlannerState
  assume "mset (map slot_of (st_reservations st)) + mset (st_slots st) = mset slots0"
    and "slot \<in> set (st_slots st)"
  then show "mset (map slot_of (st_reservations (loop_body gas today resource name slot st))) +
      mset (st_slots (loop_body gas today resource name slot st)) = mset slots0"
    by (rule loop_body_conserves)
qed

lemma no_queries_once_empty:
  "st_slots st = [] \<Longrightarrow> for_resource_in_resource_ids gas today rids st = st"
  by (cases rids) (auto simp: for_slot_in_slots.simps [of _ _ _ _ 0 st] Let_def)

lemma loop_body_settled:
  assumes inv: "settled gas today st" and slot: "slot \<in> set (st_slots st)"
  shows "settled gas today (loop_body gas today resource name slot st)"
proof -
  let ?qs = "st_queries st"
  have d: "distinct (st_slots st)"
    and out: "\<And>q. q \<in> set ?qs \<Longrightarrow> matched gas today q \<Longrightarrow> snd q \<notin> set (st_slots st)"
    and old: "\<And>j k. j < k \<Longrightarrow> k < length ?qs \<Longrightarrow> matched gas today (?qs ! j) \<Longrightarrow>
                snd (?qs ! k) \<noteq> snd (?qs ! j)"
    using inv unfolding settled_def by blast+
  have log: "snd ((?qs @ [(resource, slot)]) ! k) \<noteq> snd ((?qs @ [(resource, slot)]) ! j)"
    if "j < k" "k < length (?qs @ [(resource, slot)])"
      "matched gas today ((?qs @ [(resource, slot)]) ! j)" for j k
  proof (cases "k < length ?qs")
    case True
    then show ?thesis using that old [of j k] by (simp add: nth_append)
  next
    case False
    then have k: "k = length ?qs" using that(2) by simp
    then have j: "j < length ?qs" using that(1) by simp
    then have "matched gas today (?qs ! j)" using that(3) by (simp add: nth_append)
    then have "snd (?qs ! j) \<notin> set (st_slots st)" using out [of "?qs ! j"] j by simp
    then have "snd (?qs ! j) \<noteq> slot" using slot by blast
    then show ?thesis using k j by (simp add: nth_append)
  qed
  show ?thesis
  proof (cases "ideal_for gas today resource slot")
    case None
    then have nm: "\<not> matched gas today (resource, slot)" by (simp add: matched_def)
    have st': "loop_body gas today resource name slot st =
        st\<lparr>st_queries := ?qs @ [(resource, slot)]\<rparr>"
      using None by (rule loop_body_None)
    have "snd q \<notin> set (st_slots st)"
      if "q \<in> set (?qs @ [(resource, slot)])" "matched gas today q" for q
    proof (cases "q = (resource, slot)")
      case True
      then show ?thesis using that(2) nm by simp
    next
      case False
      then have "q \<in> set ?qs" using that(1) by simp
      then show ?thesis using that(2) by (rule out)
    qed
    then show ?thesis
      unfolding settled_def st' using d log by simp
  next
    case (Some found)
    have st': "loop_body gas today resource name slot st =
        st\<lparr>st_queries := ?qs @ [(resource, slot)],
           st_reservations := st_reservations st @ [make_reservation name found slot],
           st_slots := remove1 slot (st_slots st)\<rparr>"
      using Some by (rule loop_body_Some)
    have gone: "slot \<notin> set (remove1 slot (st_slots st))" using d by simp
    have sub: "set (remove1 slot (st_slots st)) \<subseteq> set (st_slots st)"
      by (rule set_remove1_subset)
    have "snd q \<notin> set (remove1 slot (st_slots st))"
      if "q \<in> set (?qs @ [(resource, slot)])" "matched gas today q" for q
    proof (cases "q = (resource, slot)")
      case True
      then show ?thesis using gone by simp
    next
      case False
      then have "q \<in> set ?qs" using that(1) by simp
      then have "snd q \<notin> set (st_slots st)" using that(2) by (rule out)
      then show ?thesis using sub by blast
    qed
    moreover have "distinct (remove1 slot (st_slots st))" using d by (rule distinct_remove1)
    ultimately show ?thesis
      unfolding settled_def st' using log by simp
  qed
qed

lemma matched_slot_not_queried_again:
  assumes "distinct slots0"
    and "j < k"
    and "k < length (st_queries (construct_reservations resourses gas today prefs slots0))"
    and "matched gas today (st_queries (construct_reservations resourses gas today prefs slots0) ! j)"
  shows "snd (st_queries (construct_reservations resourses gas today prefs slots0) ! k) \<noteq>
         snd (st_queries (construct_reservations resourses gas today prefs slots0) ! j)"
proof -
  have "settled gas today (construct_reservations resourses gas today prefs slots0)"
    unfolding construct_reservations_def
  proof (rule for_resource_in_resource_ids_invariant [where Inv = "settled gas today"])
    show "settled gas today \<lparr>st_reservations = [], st_slots = slots0, st_queries = []\<rparr>"
      using assms(1) by (simp add: settled_def)
  next
    fix resource :: int and name :: string and slot :: DesiredSlot and st :: PlannerState
    assume "settled gas today st" "slot \<in> set (st_slots st)"
    then show "settled gas today (loop_body gas today resource name slot st)"
      by (rule loop_body_settled)
  qed
  then show ?thesis using assms(2-4) unfolding settled_def by blast
qed

lemma loop_body_reservations:
  assumes "res \<in> set (st_reservations (loop_body gas today resource name slot st))"
  shows "res \<in> set (st_reservations st) \<or>
         (\<exists>found. ideal_for gas today resource slot = Some found \<and>
                  res = make_reservation name found slot)"
proof (cases "ideal_for gas today resource slot")
  case None
  then show ?thesis using assms by (simp add: loop_body_None)
next
  case (Some found)
  then show ?thesis using assms by (auto simp: loop_body_Some [OF Some])
qed

lemma loop_body_slots:
  "set (st_slots (loop_body gas today resource name slot st)) \<subseteq> set (st_slots st)"
proof (cases "ideal_for gas today resource slot")
  case None
  then show ?thesis by (simp add: loop_body_None)
next
  case (Some found)
  then show ?thesis by (simp add: loop_body_Some [OF Some] set_remove1_subset)
qed

lemma planner_reservations_matched:
  assumes "res \<in> set (st_reservations (construct_reservations resourses gas today prefs slots0))"
  shows "\<exists>slot \<in> set slots0. \<exists>p \<in> set (resolve_resource_ids resourses prefs). \<exists>found.
           ideal_for gas today (fst p) slot = Some found \<and>
           res = make_reservation (snd p) found slot"
proof -
  let ?rids = "resolve_resource_ids resourses prefs"
  let ?Q = "\<lambda>res. \<exists>slot \<in> set slots0. \<exists>p \<in> set ?rids. \<exists>found.
           ideal_for gas today (fst p) slot = Some found \<and>
           res = make_reservation (snd p) found slot"
  let ?Inv = "\<lambda>st. set (st_slots st) \<subseteq> set slots0 \<and> (\<forall>res \<in> set (st_reservations st). ?Q res)"
  have "?Inv (for_resource_in_resource_ids gas today ?rids
      \<lparr>st_reservations = [], st_slots = slots0, st_queries = []\<rparr>)"
  proof (rule for_resource_in_resource_ids_invariant [where Inv = ?Inv])
    show "?Inv \<lparr>st_reservations = [], st_slots = slots0, st_queries = []\<rparr>" by simp
  next
    fix resource :: int and name :: string and slot :: DesiredSlot and st :: PlannerState
    assume rid: "(resource, name) \<in> set ?rids" and inv: "?Inv st"
      and slot: "slot \<in> set (st_slots st)"
    have s0: "slot \<in> set slots0" using inv slot by blast
    have "?Q res" if "res \<in> set (st_reservations (loop_body gas today resource name slot st))" for res
      using loop_body_reservations [OF that]
    proof
      assume "res \<in> set (st_reservations st)"
      then show ?thesis using inv by blast
    next
      assume "\<exists>found. ideal_for gas today resource slot = Some found \<and>
                  res = make_reservation name found slot"
      then obtain found where "ideal_for gas today (fst (resource, name)) slot = Some found"
        "res = make_reservation (snd (resource, name)) found slot" by auto
      then show ?thesis using s0 rid by blast
    qed
    moreover have "set (st_slots (loop_body gas today resource name slot st)) \<subseteq> set slots0"
      using loop_body_slots [of gas today resource name slot st] inv by blast
    ultimately show "?Inv (loop_body gas today resource name slot st)" by blast
  qed
  then show ?thesis using assms unfolding construct_reservations_def by blast
qed

text \<open>
  C9. Every reservation the planner produces carries the date, the start time and the
  duration of a requested slot of the input, the one it was matched for, and not the
  boundaries of the matched interval; only the resource id and the resource name come
  from the match (and the resource type from the preference being tried). In the
  example the matched interval starts at 09:30 and the reservation at the requested
  09:00.
\<close>

theorem reservation_carries_desired_slot:
  assumes "res \<in> set (st_reservations (construct_reservations resourses gas today prefs slots0))"
  shows "\<exists>slot \<in> set slots0. \<exists>p \<in> set (resolve_resource_ids resourses prefs). \<exists>found.
           ideal_for gas today (fst p) slot = Some found \<and>
           r_date res = ds_date slot \<and>
           r_start_time res = fst (ds_slot slot) \<and>
           r_duration res = snd (ds_slot slot) \<and>
           r_resource_id res = fst found \<and>
           r_resource_name res = iv_resource_name (snd found) \<and>
           r_resource_type res = snd p"
proof -
  obtain slot p found where m: "slot \<in> set slots0"
    "p \<in> set (resolve_resource_ids resourses prefs)"
    "ideal_for gas today (fst p) slot = Some found"
    and res: "res = make_reservation (snd p) found slot"
    using planner_reservations_matched [OF assms] by blast
  have "r_date res = ds_date slot" "r_start_time res = fst (ds_slot slot)"
    "r_duration res = snd (ds_slot slot)" "r_resource_id res = fst found"
    "r_resource_name res = iv_resource_name (snd found)" "r_resource_type res = snd p"
    by (simp_all add: res make_reservation_def)
  then show ?thesis using m by blast
qed

theorem reservation_carries_desired_slot_witness:
  "make_reservation ''BALLATOIO LFA'' (7, interval (time 9 30) 10) (desired 1)
     \<in> set (st_reservations (construct_reservations site free_two_days 0 [''BALLATOIO LFA'']
          [desired 1, desired 2, desired 3]))
   \<and> (\<exists>slot \<in> set [desired 1, desired 2, desired 3].
       \<exists>p \<in> set (resolve_resource_ids site [''BALLATOIO LFA'']). \<exists>found.
         ideal_for free_two_days 0 (fst p) slot = Some found \<and>
         r_date (make_reservation ''BALLATOIO LFA'' (7, interval (time 9 30) 10) (desired 1)) = ds_date slot \<and>
         r_start_time (make_reservation ''BALLATOIO LFA'' (7, interval (time 9 30) 10) (desired 1)) = fst (ds_slot slot) \<and>
         r_duration (make_reservation ''BALLATOIO LFA'' (7, interval (time 9 30) 10) (desired 1)) = snd (ds_slot slot) \<and>
         r_resource_id (make_reservation ''BALLATOIO LFA'' (7, interval (time 9 30) 10) (desired 1)) = fst found \<and>
         r_resource_name (make_reservation ''BALLATOIO LFA'' (7, interval (time 9 30) 10) (desired 1)) = iv_resource_name (snd found) \<and>
         r_resource_type (make_reservation ''BALLATOIO LFA'' (7, interval (time 9 30) 10) (desired 1)) = snd p)
   \<and> r_start_time (make_reservation ''BALLATOIO LFA'' (7, interval (time 9 30) 10) (desired 1)) = time 9 0
   \<and> fst (iv_slot (interval (time 9 30) 10)) = time 9 30"
proof -
  have h: "make_reservation ''BALLATOIO LFA'' (7, interval (time 9 30) 10) (desired 1)
     \<in> set (st_reservations (construct_reservations site free_two_days 0 [''BALLATOIO LFA'']
          [desired 1, desired 2, desired 3]))"
    by code_simp
  have s: "r_start_time (make_reservation ''BALLATOIO LFA'' (7, interval (time 9 30) 10) (desired 1)) = time 9 0"
    "fst (iv_slot (interval (time 9 30) 10)) = time 9 30"
    by (simp_all add: make_reservation_def desired_def interval_def)
  show ?thesis
    using h s reservation_carries_desired_slot [OF h] by blast
qed

text \<open>
  C3. Every requested slot is either satisfied by exactly one reservation or stays in
  the pending list (see \<open>planner_conservation\<close>), and with 3 requested slots of which
  exactly 2 can be matched the planner should return 2 reservations and leave 1 slot.
  The loop removes from the list it iterates, so the slot after each match is skipped:
  with one preferred resource type, slots on days 1, 2 and 3, and a seat free on days 1
  and 2 only, the planner makes one reservation, never asks the provider about day 2,
  and leaves the slots of days 2 and 3 pending.
\<close>

theorem three_slots_one_reservation:
  "ideal_for free_two_days 0 10 (desired 1) = Some (7, interval (time 9 30) 10)
   \<and> ideal_for free_two_days 0 10 (desired 2) = Some (7, interval (time 9 30) 10)
   \<and> ideal_for free_two_days 0 10 (desired 3) = None
   \<and> resolve_resource_ids site [''BALLATOIO LFA''] = [(10, ''BALLATOIO LFA'')]
   \<and> construct_reservations site free_two_days 0 [''BALLATOIO LFA'']
        [desired 1, desired 2, desired 3] =
      \<lparr>st_reservations =
         [make_reservation ''BALLATOIO LFA'' (7, interval (time 9 30) 10) (desired 1)],
       st_slots = [desired 2, desired 3],
       st_queries = [(10, desired 1), (10, desired 3)]\<rparr>"
  by code_simp

text \<open>
  C4. A slot satisfied at one preference rank is not tried at a later rank, the
  preferred of two resources that both offer a qualifying interval for a slot should
  win, and nothing is asked once the pending list is empty (see
  \<open>matched_slot_not_queried_again\<close> and \<open>no_queries_once_empty\<close>). Because the slot after each match is skipped, the second
  part fails: with two slots that both resource types can serve, the slot of day 2 is
  never tried on the preferred type and is reserved on the second one.
\<close>

theorem second_slot_served_by_second_resource:
  "ideal_for free_two_days 0 10 (desired 2) = Some (7, interval (time 9 30) 10)
   \<and> ideal_for free_two_days 0 20 (desired 2) = Some (7, interval (time 9 30) 10)
   \<and> resolve_resource_ids site [''BALLATOIO LFA'', ''SALA LETTURA''] =
       [(10, ''BALLATOIO LFA''), (20, ''SALA LETTURA'')]
   \<and> construct_reservations site free_two_days 0 [''BALLATOIO LFA'', ''SALA LETTURA'']
        [desired 1, desired 2] =
      \<lparr>st_reservations =
         [make_reservation ''BALLATOIO LFA'' (7, interval (time 9 30) 10) (desired 1),
          make_reservation ''SALA LETTURA'' (7, interval (time 9 30) 10) (desired 2)],
       st_slots = [],
       st_queries = [(10, desired 1), (20, desired 2)]\<rparr>"
  by code_simp


end
